theory Spec2Isabelle
  imports Main
begin

section \<open>Strings\<close>

text \<open>
  A JavaScript string is a sequence of UTF-16 code units. The model uses \<^typ>\<open>string\<close>,
  whose characters are read as the code units 0 to 255 (ASCII and Latin-1); code units above
  255 are outside the model. On that range the functions below are the ECMAScript ones.
\<close>

text \<open>
  The characters stripped by \<^verbatim>\<open>String.prototype.trim\<close> and matched by the regular
  expression class \<^verbatim>\<open>\s\<close>: tab, line feed, vertical tab, form feed, carriage return,
  space and no-break space.
\<close>

definition isWhiteSpace :: "char \<Rightarrow> bool" where
  "isWhiteSpace c \<longleftrightarrow>
     c \<in> set [CHR 0x09, CHR 0x0A, CHR 0x0B, CHR 0x0C, CHR 0x0D, CHR 0x20, CHR 0xA0]"

definition trim :: "string \<Rightarrow> string" where
  "trim s = rev (dropWhile isWhiteSpace (rev (dropWhile isWhiteSpace s)))"

text \<open>
  \<^verbatim>\<open>toLowerCase\<close>: A to Z and the Latin-1 capitals (0xC0 to 0xDE without the
  multiplication sign 0xD7) move up by 32; every other code unit below 256 is unchanged.
\<close>

definition toLowerCaseChar :: "char \<Rightarrow> char" where
  "toLowerCaseChar c =
     (let n = (of_char c :: nat)
      in if (65 \<le> n \<and> n \<le> 90) \<or> (192 \<le> n \<and> n \<le> 222 \<and> n \<noteq> 215)
         then char_of (n + 32) else c)"

definition toLowerCase :: "string \<Rightarrow> string" where
  "toLowerCase s = map toLowerCaseChar s"

section \<open>Question deduplication (qa-pairs-utils.ts)\<close>

record QAPair =
  question :: string
  answer :: string

text \<open>\<^verbatim>\<open>qaPairs[i].question.trim().toLowerCase()\<close>\<close>

definition normalizedQuestion :: "QAPair \<Rightarrow> string" where
  "normalizedQuestion p = toLowerCase (trim (question p))"

text \<open>
  First loop of \<^verbatim>\<open>deduplicateQAPairs\<close>: \<^verbatim>\<open>lastOccurrenceIndex.set(normalizedQuestion, i)\<close>
  for \<open>i\<close> from the current index upwards. The \<^verbatim>\<open>Map\<close> is a partial function.
\<close>

fun firstPass :: "QAPair list \<Rightarrow> nat \<Rightarrow> (string \<rightharpoonup> nat) \<Rightarrow> (string \<rightharpoonup> nat)" where
  "firstPass [] i lastOccurrenceIndex = lastOccurrenceIndex"
| "firstPass (p # ps) i lastOccurrenceIndex =
     firstPass ps (Suc i) (lastOccurrenceIndex(normalizedQuestion p \<mapsto> i))"

text \<open>
  Second loop: \<^verbatim>\<open>if (lastIndex === i) result.push(qaPairs[i])\<close>.
\<close>

fun secondPass ::
  "QAPair list \<Rightarrow> nat \<Rightarrow> (string \<rightharpoonup> nat) \<Rightarrow> QAPair list \<Rightarrow> QAPair list" where
  "secondPass [] i lastOccurrenceIndex result = result"
| "secondPass (p # ps) i lastOccurrenceIndex result =
     secondPass ps (Suc i) lastOccurrenceIndex
       (if lastOccurrenceIndex (normalizedQuestion p) = Some i then result @ [p] else result)"

definition deduplicateQAPairs :: "QAPair list \<Rightarrow> QAPair list" where
  "deduplicateQAPairs qaPairs =
     (if length qaPairs = 0 then qaPairs
      else secondPass qaPairs 0 (firstPass qaPairs 0 Map.empty) [])"

subsection \<open>Notions used to state the properties of the deduplicator\<close>

text \<open>
  Index \<open>i\<close> holds the last occurrence of its normalized question: no later entry has the
  same normalized question.
\<close>

definition isLastOccurrence :: "QAPair list \<Rightarrow> nat \<Rightarrow> bool" where
  "isLastOccurrence qaPairs i \<longleftrightarrow>
     (\<forall>j < length qaPairs. i < j \<longrightarrow>
        normalizedQuestion (qaPairs ! j) \<noteq> normalizedQuestion (qaPairs ! i))"

text \<open>The input entries at the last-occurrence indices, in the order of the input.\<close>

definition lastOccurrences :: "QAPair list \<Rightarrow> QAPair list" where
  "lastOccurrences qaPairs =
     map (\<lambda>i. qaPairs ! i) (filter (isLastOccurrence qaPairs) [0..<length qaPairs])"

text \<open>The same selection by recursion on the list, for an arbitrary key function.\<close>

fun keepLast :: "('a \<Rightarrow> 'k) \<Rightarrow> 'a list \<Rightarrow> 'a list" where
  "keepLast key [] = []"
| "keepLast key (x # xs) =
     (if key x \<in> key ` set xs then keepLast key xs else x # keepLast key xs)"

text \<open>Position of the last entry with normalized question \<open>k\<close>, if there is one.\<close>

fun lastIndexOfKey :: "QAPair list \<Rightarrow> string \<Rightarrow> nat option" where
  "lastIndexOfKey [] k = None"
| "lastIndexOfKey (p # ps) k =
     (case lastIndexOfKey ps k of
        Some j \<Rightarrow> Some (Suc j)
      | None \<Rightarrow> if normalizedQuestion p = k then Some 0 else None)"

text \<open>The example of the specification.\<close>

definition petsExample :: "QAPair list" where
  "petsExample =
     [\<lparr>question = ''Are pets allowed?'', answer = ''''\<rparr>,
      \<lparr>question = ''Budget?'', answer = ''''\<rparr>,
      \<lparr>question = ''are pets allowed?'', answer = ''Yes''\<rparr>]"


section \<open>Messages\<close>

text \<open>
  The values that \<^verbatim>\<open>JSON.stringify\<close> serializes here: the content of a message is
  a string or an array of content-block objects. An object is the list of its properties in
  the order in which JavaScript enumerates them (keys that are array indices first, in
  ascending order, then the other keys in insertion order). Numbers are not part of the
  model.
\<close>

datatype json =
    JNull
  | JBool bool
  | JString string
  | JArray "json list"
  | JObject "(string \<times> json) list"

text \<open>
  \<^verbatim>\<open>Message["content"]\<close> of the SDK: \<^verbatim>\<open>string | MessageContentComplex[]\<close>.
\<close>

datatype MessageContent =
    ContentString string
  | ContentBlocks "(string \<times> json) list list"

text \<open>
  The fields of an SDK \<^verbatim>\<open>Message\<close> that the code reads: \<^verbatim>\<open>id\<close> (optional),
  \<^verbatim>\<open>type\<close>, \<^verbatim>\<open>content\<close> and \<^verbatim>\<open>name\<close> (optional).
\<close>

record Message =
  msg_id :: "string option"
  msg_type :: string
  msg_content :: MessageContent
  msg_name :: "string option"

text \<open>\<^verbatim>\<open>Array.prototype.join\<close> on strings.\<close>

fun join :: "string \<Rightarrow> string list \<Rightarrow> string" where
  "join sep [] = []"
| "join sep [x] = x"
| "join sep (x # y # ys) = x @ sep @ join sep (y # ys)"

text \<open>
  The string that \<^verbatim>\<open>Array.prototype.join\<close> puts for an element: nothing for
  \<^verbatim>\<open>null\<close> and \<^verbatim>\<open>undefined\<close>, else its \<^verbatim>\<open>ToString\<close>, which for an
  array is the join of its elements by a comma and for an object
  \<^verbatim>\<open>[object Object]\<close>.
\<close>

fun joinElement :: "json \<Rightarrow> string" where
  "joinElement JNull = []"
| "joinElement (JBool b) = (if b then ''true'' else ''false'')"
| "joinElement (JString t) = t"
| "joinElement (JArray xs) = join '','' (map joinElement xs)"
| "joinElement (JObject kvs) = ''[object Object]''"

text \<open>
  \<^verbatim>\<open>getContentString\<close> (utils.ts): a string content is returned as it is; of an array
  the \<^verbatim>\<open>text\<close> of the blocks whose \<^verbatim>\<open>type\<close> is \<^verbatim>\<open>"text"\<close> are joined
  by a space. The type guard of the source gives such a block a string \<^verbatim>\<open>text\<close>; a
  missing one is \<^verbatim>\<open>undefined\<close> and joins as the empty string.
\<close>

definition blockText :: "(string \<times> json) list \<Rightarrow> string" where
  "blockText c = (case map_of c ''text'' of Some t \<Rightarrow> joinElement t | None \<Rightarrow> [])"

fun getContentString :: "MessageContent \<Rightarrow> string" where
  "getContentString (ContentString s) = s"
| "getContentString (ContentBlocks cs) =
     join '' '' (map blockText (filter (\<lambda>c. map_of c ''type'' = Some (JString ''text'')) cs))"

subsection \<open>JSON.stringify\<close>

definition hexDigit :: "nat \<Rightarrow> char" where
  "hexDigit n = ''0123456789abcdef'' ! (n mod 16)"

text \<open>
  \<^verbatim>\<open>QuoteJSONString\<close>: the double quote (0x22) and the backslash (0x5C) are escaped,
  control characters get their short escape or \<^verbatim>\<open>\u00XX\<close>.
\<close>

definition escapeJSONChar :: "char \<Rightarrow> string" where
  "escapeJSONChar c =
     (if c = CHR 0x22 then [CHR 0x5C, CHR 0x22]
      else if c = CHR 0x5C then [CHR 0x5C, CHR 0x5C]
      else if c = CHR 0x08 then [CHR 0x5C, CHR ''b'']
      else if c = CHR 0x09 then [CHR 0x5C, CHR ''t'']
      else if c = CHR 0x0A then [CHR 0x5C, CHR ''n'']
      else if c = CHR 0x0C then [CHR 0x5C, CHR ''f'']
      else if c = CHR 0x0D then [CHR 0x5C, CHR ''r'']
      else if (of_char c :: nat) < 32
        then [CHR 0x5C, CHR ''u'', CHR ''0'', CHR ''0'',
              hexDigit ((of_char c :: nat) div 16), hexDigit (of_char c :: nat)]
      else [c])"

definition quoteJSONString :: "string \<Rightarrow> string" where
  "quoteJSONString s = [CHR 0x22] @ concat (map escapeJSONChar s) @ [CHR 0x22]"

fun JSON_stringify :: "json \<Rightarrow> string" where
  "JSON_stringify JNull = ''null''"
| "JSON_stringify (JBool b) = (if b then ''true'' else ''false'')"
| "JSON_stringify (JString s) = quoteJSONString s"
| "JSON_stringify (JArray xs) = ''['' @ join '','' (map JSON_stringify xs) @ '']''"
| "JSON_stringify (JObject kvs) =
     ''{'' @ join '','' (map (\<lambda>(k, v). quoteJSONString k @ '':'' @ JSON_stringify v) kvs)
       @ ''}''"

fun contentToJson :: "MessageContent \<Rightarrow> json" where
  "contentToJson (ContentString s) = JString s"
| "contentToJson (ContentBlocks cs) = JArray (map JObject cs)"

section \<open>Session reconciliation (providers/Stream.tsx)\<close>

text \<open>
  \<^verbatim>\<open>JSON.stringify(messages[messages.length - 1]?.content)\<close>: on an empty array the
  element is \<^verbatim>\<open>undefined\<close>, and so is the result (\<open>None\<close>).
\<close>

definition lastContentJSON :: "Message list \<Rightarrow> string option" where
  "lastContentJSON messages =
     (if messages = [] then None
      else Some (JSON_stringify (contentToJson (msg_content (last messages)))))"

text \<open>
  \<^verbatim>\<open>effectiveMessages\<close>, from \<^verbatim>\<open>streamValue.messages\<close>, the state
  \<^verbatim>\<open>polledMessages\<close> (\<open>None\<close> is \<^verbatim>\<open>null\<close>) and \<^verbatim>\<open>streamValue.isLoading\<close>.
\<close>

definition effectiveMessages ::
  "Message list option \<Rightarrow> Message list option \<Rightarrow> bool \<Rightarrow> Message list" where
  "effectiveMessages streamValue_messages polledMessages isLoading =
     (let streamMessages = (case streamValue_messages of None \<Rightarrow> [] | Some ms \<Rightarrow> ms);
          polled = (case polledMessages of None \<Rightarrow> [] | Some ms \<Rightarrow> ms)
      in if isLoading then streamMessages
         else if length polled > length streamMessages then polled
         else if length polled = length streamMessages \<and> length polled > 0
                 \<and> lastContentJSON polled \<noteq> lastContentJSON streamMessages
           then polled
         else streamMessages)"

text \<open>Example data: a message with a string content and no id.\<close>

definition textMessage :: "string \<Rightarrow> string \<Rightarrow> Message" where
  "textMessage ty txt =
     \<lparr>msg_id = None, msg_type = ty, msg_content = ContentString txt, msg_name = None\<rparr>"

definition stream3 :: "Message list" where
  "stream3 = [textMessage ''human'' ''hi'', textMessage ''ai'' ''hello'',
              textMessage ''human'' ''more'']"

definition polled5 :: "Message list" where
  "polled5 = [textMessage ''human'' ''hi'', textMessage ''ai'' ''hello'',
              textMessage ''human'' ''more'', textMessage ''ai'' ''sure'',
              textMessage ''ai'' ''done'']"

definition polled3 :: "Message list" where
  "polled3 = [textMessage ''human'' ''hi'', textMessage ''ai'' ''hello'',
              textMessage ''human'' ''more (edited)'']"

section \<open>Regular expressions\<close>

text \<open>
  The regular expressions of the source are written as values of a datatype and run by a
  backtracking matcher that follows the ECMAScript semantics: alternatives are tried from
  left to right, a greedy quantifier tries one more iteration before it tries to stop, a
  lazy one tries to stop first, and an iteration that consumes nothing is rejected. No
  capture group of the source stands inside a quantifier, so captures are never reset.
\<close>

datatype cclass =
    Lit char
  | Digit
  | Space
  | NoneOf "char list"
  | AnyChar

datatype regex =
    Eps
  | Atom cclass
  | Seq regex regex
  | Alt regex regex
  | Star regex
  | StarLazy regex
  | Opt regex
  | Group nat regex
  | NegLookahead regex
  | Bol
  | Eol

text \<open>
  \<^verbatim>\<open>Canonicalize\<close> of the \<^verbatim>\<open>i\<close> flag (without the \<^verbatim>\<open>u\<close> flag): the
  upper-case form of a code unit. Below 256 the letters a to z and the Latin-1 small
  letters 0xE0 to 0xFE (without the division sign 0xF7) move down by 32; the upper-case
  forms of 0xB5 and 0xFF lie above 255 and are shared with no code unit below 256, and
  0xDF has none of one code unit.
\<close>

definition canonicalize :: "char \<Rightarrow> char" where
  "canonicalize c =
     (let n = (of_char c :: nat)
      in if (97 \<le> n \<and> n \<le> 122) \<or> (224 \<le> n \<and> n \<le> 254 \<and> n \<noteq> 247)
         then char_of (n - 32) else c)"

text \<open>
  One pattern character against one input character; the flag is \<^verbatim>\<open>i\<close>.
  \<open>Lit\<close> is a literal, \<open>Digit\<close> is \<^verbatim>\<open>\d\<close>, \<open>Space\<close> is \<^verbatim>\<open>\s\<close>,
  \<open>NoneOf cs\<close> is \<^verbatim>\<open>[^cs]\<close> and \<open>AnyChar\<close> is the dot under the \<^verbatim>\<open>s\<close> flag.
\<close>

fun cmatch :: "bool \<Rightarrow> cclass \<Rightarrow> char \<Rightarrow> bool" where
  "cmatch ic (Lit c) x = (if ic then canonicalize x = canonicalize c else x = c)"
| "cmatch ic Digit x = (x \<in> set ''0123456789'')"
| "cmatch ic Space x = isWhiteSpace x"
| "cmatch ic (NoneOf cs) x =
     (if ic then canonicalize x \<notin> canonicalize ` set cs else x \<notin> set cs)"
| "cmatch ic AnyChar x = True"

text \<open>
  A state of the matcher: the index reached in the input, the input from that index on,
  and the captures so far (the newest first).
\<close>

type_synonym mstate = "nat \<times> string \<times> (nat \<times> string) list"

text \<open>
  All the ways in which a pattern matches at a state, in the order in which backtracking
  tries them.
\<close>

function matchAll :: "bool \<Rightarrow> regex \<Rightarrow> mstate \<Rightarrow> mstate list" where
  "matchAll ic Eps st = [st]"
| "matchAll ic (Atom a) (i, s, c) =
     (case s of [] \<Rightarrow> [] | x # xs \<Rightarrow> if cmatch ic a x then [(Suc i, xs, c)] else [])"
| "matchAll ic (Seq r1 r2) st = concat (map (\<lambda>st'. matchAll ic r2 st') (matchAll ic r1 st))"
| "matchAll ic (Alt r1 r2) st = matchAll ic r1 st @ matchAll ic r2 st"
| "matchAll ic (Star r) (i, s, c) =
     concat (map (\<lambda>(i', s', c'). if length s' < length s then matchAll ic (Star r) (i', s', c') else [])
               (matchAll ic r (i, s, c))) @ [(i, s, c)]"
| "matchAll ic (StarLazy r) (i, s, c) =
     (i, s, c) #
     concat (map (\<lambda>(i', s', c'). if length s' < length s then matchAll ic (StarLazy r) (i', s', c') else [])
               (matchAll ic r (i, s, c)))"
| "matchAll ic (Opt r) st = matchAll ic r st @ [st]"
| "matchAll ic (Group n r) (i, s, c) =
     map (\<lambda>(i', s', c'). (i', s', (n, take (i' - i) s) # c')) (matchAll ic r (i, s, c))"
| "matchAll ic (NegLookahead r) st = (case matchAll ic r st of [] \<Rightarrow> [st] | _ # _ \<Rightarrow> [])"
| "matchAll ic Bol (i, s, c) = (if i = 0 then [(i, s, c)] else [])"
| "matchAll ic Eol (i, s, c) = (case s of [] \<Rightarrow> [(i, s, c)] | _ # _ \<Rightarrow> [])"
  by pat_completeness auto
termination
  by (relation "measures [\<lambda>(ic, r, st). size r, \<lambda>(ic, r, i, s, c). length s]") auto

text \<open>Pattern notation: a literal string, \<^verbatim>\<open>r+\<close>, \<^verbatim>\<open>r+?\<close> and a sequence.\<close>

fun Str :: "string \<Rightarrow> regex" where
  "Str [] = Eps"
| "Str [c] = Atom (Lit c)"
| "Str (c # cs) = Seq (Atom (Lit c)) (Str cs)"

definition Plus :: "regex \<Rightarrow> regex" where
  "Plus r = Seq r (Star r)"

definition PlusLazy :: "regex \<Rightarrow> regex" where
  "PlusLazy r = Seq r (StarLazy r)"

fun SeqL :: "regex list \<Rightarrow> regex" where
  "SeqL [] = Eps"
| "SeqL [r] = r"
| "SeqL (r # rs) = Seq r (SeqL rs)"

text \<open>
  The first match at or after index \<open>i\<close>, where \<open>s\<close> is the input from \<open>i\<close> on: the
  start index and the state at the end of the match. This is the search of
  \<^verbatim>\<open>RegExp.prototype.exec\<close>, which also tries the end of the input.
\<close>

fun searchFrom :: "bool \<Rightarrow> regex \<Rightarrow> nat \<Rightarrow> string \<Rightarrow> (nat \<times> mstate) option" where
  "searchFrom ic r i [] =
     (case matchAll ic r (i, [], []) of st # _ \<Rightarrow> Some (i, st) | [] \<Rightarrow> None)"
| "searchFrom ic r i (x # xs) =
     (case matchAll ic r (i, x # xs, []) of
        st # _ \<Rightarrow> Some (i, st)
      | [] \<Rightarrow> searchFrom ic r (Suc i) xs)"

text \<open>
  \<^verbatim>\<open>re.exec(str)\<close> with \<^verbatim>\<open>re.lastIndex\<close> given: the captures and the new
  \<^verbatim>\<open>lastIndex\<close> (the end of the match), or \<open>None\<close> for \<^verbatim>\<open>null\<close>.
\<close>

definition exec :: "bool \<Rightarrow> regex \<Rightarrow> string \<Rightarrow> nat \<Rightarrow> ((nat \<times> string) list \<times> nat) option" where
  "exec ic r str lastIndex =
     (if lastIndex > length str then None
      else case searchFrom ic r lastIndex (drop lastIndex str) of
             None \<Rightarrow> None
           | Some (start, (e, rest, c)) \<Rightarrow> Some (c, e))"

text \<open>
  \<^verbatim>\<open>str.match(re)\<close> of a pattern without the \<^verbatim>\<open>g\<close> flag: the captures of the
  first match. \<^verbatim>\<open>re.test(str)\<close>: whether there is one.
\<close>

definition regexMatch :: "bool \<Rightarrow> regex \<Rightarrow> string \<Rightarrow> (nat \<times> string) list option" where
  "regexMatch ic r str = map_option fst (exec ic r str 0)"

definition test :: "bool \<Rightarrow> regex \<Rightarrow> string \<Rightarrow> bool" where
  "test ic r str = (case exec ic r str 0 of None \<Rightarrow> False | Some m \<Rightarrow> True)"

text \<open>\<^verbatim>\<open>match[n]\<close>: the text of capture group \<open>n\<close>, \<open>None\<close> when it did not take part.\<close>

definition capture :: "(nat \<times> string) list \<Rightarrow> nat \<Rightarrow> string option" where
  "capture c n = map_of c n"

subsection \<open>The patterns of qa-pairs-utils.ts\<close>

text \<open>
  \<^verbatim>\<open>/here are (\d+) vetting answers from the matched (buyer|seller|opposing party):/i\<close>
\<close>

definition partyRegex :: regex where
  "partyRegex = Alt (Str ''buyer'') (Alt (Str ''seller'') (Str ''opposing party''))"

definition fullHeaderRegex :: regex where
  "fullHeaderRegex =
     SeqL [Str ''here are '', Group 1 (Plus (Atom Digit)),
           Str '' vetting answers from the matched '', Group 2 partyRegex, Str '':'']"

text \<open>
  \<^verbatim>\<open>/\*\*(\d+)\.\s*([^*]+)\*\*\s*\n([^\n*]+(?:\n(?!\*\*\d+\.)[^\n*]+)*)/g\<close>
\<close>

definition qaPattern :: regex where
  "qaPattern =
     SeqL [Str ''**'', Group 1 (Plus (Atom Digit)), Str ''.'', Star (Atom Space),
           Group 2 (Plus (Atom (NoneOf ''*''))), Str ''**'', Star (Atom Space),
           Str ''\<newline>'',
           Group 3 (Seq (Plus (Atom (NoneOf ''\<newline>*'')))
                        (Star (SeqL [Str ''\<newline>'',
                                     NegLookahead (SeqL [Str ''**'', Plus (Atom Digit), Str ''.'']),
                                     Plus (Atom (NoneOf ''\<newline>*''))])))]"

text \<open>
  \<^verbatim>\<open>/The matched (buyer|seller|opposing party) has answered (\d+) vetting questions?\./i\<close>
\<close>

definition teaserHeaderRegex :: regex where
  "teaserHeaderRegex =
     SeqL [Str ''The matched '', Group 1 partyRegex, Str '' has answered '',
           Group 2 (Plus (Atom Digit)), Str '' vetting question'', Opt (Str ''s''),
           Str ''.'']"

text \<open>\<^verbatim>\<open>/\*\*(\d+)\.\s*([^*]+?)\*\*/g\<close>\<close>

definition questionPattern :: regex where
  "questionPattern =
     SeqL [Str ''**'', Group 1 (Plus (Atom Digit)), Str ''.'', Star (Atom Space),
           Group 2 (PlusLazy (Atom (NoneOf ''*''))), Str ''**'']"

text \<open>
  \<^verbatim>\<open>/\n\nthe counterparty has answered your question:.*$/is\<close> and
  \<^verbatim>\<open>/^the counterparty has answered your question:/i\<close>
\<close>

definition markerPhrase :: string where
  "markerPhrase = ''the counterparty has answered your question:''"

definition counterpartyPattern :: regex where
  "counterpartyPattern =
     SeqL [Str ''\<newline>\<newline>'', Str markerPhrase, Star (Atom AnyChar), Eol]"

definition markerAtStart :: regex where
  "markerAtStart = Seq Bol (Str markerPhrase)"

subsection \<open>Every match ends inside the input and sets its groups\<close>

text \<open>The least number of characters that a match of the pattern consumes.\<close>

fun minLen :: "regex \<Rightarrow> nat" where
  "minLen Eps = 0"
| "minLen (Atom a) = 1"
| "minLen (Seq r1 r2) = minLen r1 + minLen r2"
| "minLen (Alt r1 r2) = min (minLen r1) (minLen r2)"
| "minLen (Star r) = 0"
| "minLen (StarLazy r) = 0"
| "minLen (Opt r) = 0"
| "minLen (Group n r) = minLen r"
| "minLen (NegLookahead r) = 0"
| "minLen Bol = 0"
| "minLen Eol = 0"

text \<open>The capture groups that take part in every match of the pattern.\<close>

fun definedGroups :: "regex \<Rightarrow> nat set" where
  "definedGroups Eps = {}"
| "definedGroups (Atom a) = {}"
| "definedGroups (Seq r1 r2) = definedGroups r1 \<union> definedGroups r2"
| "definedGroups (Alt r1 r2) = definedGroups r1 \<inter> definedGroups r2"
| "definedGroups (Star r) = {}"
| "definedGroups (StarLazy r) = {}"
| "definedGroups (Opt r) = {}"
| "definedGroups (Group n r) = insert n (definedGroups r)"
| "definedGroups (NegLookahead r) = {}"
| "definedGroups Bol = {}"
| "definedGroups Eol = {}"

text \<open>
  The equations of the two stars call themselves under a test, so the simplifier uses them
  only where a proof names them.
\<close>

lemma matchAll_Star:
  "matchAll ic (Star r) (i, s, c) =
     concat (map (\<lambda>(i', s', c'). if length s' < length s then matchAll ic (Star r) (i', s', c') else [])
               (matchAll ic r (i, s, c))) @ [(i, s, c)]"
  by (rule matchAll.simps)

lemma matchAll_StarLazy:
  "matchAll ic (StarLazy r) (i, s, c) =
     (i, s, c) #
     concat (map (\<lambda>(i', s', c'). if length s' < length s then matchAll ic (StarLazy r) (i', s', c') else [])
               (matchAll ic r (i, s, c)))"
  by (rule matchAll.simps)

declare matchAll.simps(5) [simp del] matchAll.simps(6) [simp del]

lemma matchAll_Star_cases:
  assumes "st' \<in> set (matchAll ic (Star r) (i, s, c))"
  obtains (stop) "st' = (i, s, c)"
  | (iter) i1 s1 c1 where "(i1, s1, c1) \<in> set (matchAll ic r (i, s, c))" "length s1 < length s"
      "st' \<in> set (matchAll ic (Star r) (i1, s1, c1))"
proof -
  from assms have "st' \<in> set (concat (map (\<lambda>(i', s', c').
      if length s' < length s then matchAll ic (Star r) (i', s', c') else []) (matchAll ic r (i, s, c)))
      @ [(i, s, c)])"
    by (simp only: matchAll_Star [of ic r i s c])
  then show thesis
    using stop iter by (auto split: if_splits)
qed

lemma matchAll_StarLazy_cases:
  assumes "st' \<in> set (matchAll ic (StarLazy r) (i, s, c))"
  obtains (stop) "st' = (i, s, c)"
  | (iter) i1 s1 c1 where "(i1, s1, c1) \<in> set (matchAll ic r (i, s, c))" "length s1 < length s"
      "st' \<in> set (matchAll ic (StarLazy r) (i1, s1, c1))"
proof -
  from assms have "st' \<in> set ((i, s, c) # concat (map (\<lambda>(i', s', c').
      if length s' < length s then matchAll ic (StarLazy r) (i', s', c') else []) (matchAll ic r (i, s, c))))"
    by (simp only: matchAll_StarLazy [of ic r i s c])
  then show thesis
    using stop iter by (auto split: if_splits)
qed

lemma matchAll_consumes:
  "st' \<in> set (matchAll ic r st) \<Longrightarrow>
     \<exists>k. minLen r \<le> k \<and> k \<le> length (fst (snd st)) \<and> fst st' = fst st + k
         \<and> fst (snd st') = drop k (fst (snd st))"
proof (induction ic r st arbitrary: st' rule: matchAll.induct)
  case (1 ic st)
  then show ?case by (intro exI [of _ 0]) simp
next
  case (2 ic a i s c)
  then show ?case
    by (cases s) (auto split: if_splits intro!: exI [of _ 1])
next
  case (3 ic r1 r2 st)
  from "3.prems" obtain mid where mid: "mid \<in> set (matchAll ic r1 st)" and st': "st' \<in> set (matchAll ic r2 mid)"
    by auto
  from "3.IH"(1) [OF mid] obtain k1 where k1: "minLen r1 \<le> k1" "k1 \<le> length (fst (snd st))"
    "fst mid = fst st + k1" "fst (snd mid) = drop k1 (fst (snd st))" by blast
  from "3.IH"(2) [OF mid st'] obtain k2 where k2: "minLen r2 \<le> k2" "k2 \<le> length (fst (snd mid))"
    "fst st' = fst mid + k2" "fst (snd st') = drop k2 (fst (snd mid))" by blast
  from k1 k2 show ?case
    by (intro exI [of _ "k1 + k2"]) (simp add: add.commute)
next
  case (4 ic r1 r2 st)
  then show ?case by (fastforce simp: min_def)
next
  case (5 ic r i s c)
  from "5.prems" show ?case
  proof (cases rule: matchAll_Star_cases)
    case stop
    then show ?thesis by (intro exI [of _ 0]) simp
  next
    case (iter i1 s1 c1)
    from "5.IH"(1) [OF iter(1)] obtain k1 where k1: "k1 \<le> length s" "i1 = i + k1" "s1 = drop k1 s"
      by auto
    from "5.IH"(2) [OF iter(1) refl refl iter(2) iter(3)] obtain k2 where k2: "k2 \<le> length s1"
      "fst st' = i1 + k2" "fst (snd st') = drop k2 s1" by auto
    from k1 k2 show ?thesis
      by (intro exI [of _ "k1 + k2"]) (simp add: add.commute)
  qed
next
  case (6 ic r i s c)
  from "6.prems" show ?case
  proof (cases rule: matchAll_StarLazy_cases)
    case stop
    then show ?thesis by (intro exI [of _ 0]) simp
  next
    case (iter i1 s1 c1)
    from "6.IH"(1) [OF iter(1)] obtain k1 where k1: "k1 \<le> length s" "i1 = i + k1" "s1 = drop k1 s"
      by auto
    from "6.IH"(2) [OF iter(1) refl refl iter(2) iter(3)] obtain k2 where k2: "k2 \<le> length s1"
      "fst st' = i1 + k2" "fst (snd st') = drop k2 s1" by auto
    from k1 k2 show ?thesis
      by (intro exI [of _ "k1 + k2"]) (simp add: add.commute)
  qed
next
  case (7 ic r st)
  from "7.prems" have "st' = st \<or> st' \<in> set (matchAll ic r st)" by auto
  then show ?case
  proof
    assume "st' = st"
    then show ?thesis by (intro exI [of _ 0]) simp
  next
    assume "st' \<in> set (matchAll ic r st)"
    from "7.IH" [OF this] show ?thesis by auto
  qed
next
  case (8 ic n r i s c)
  from "8.prems" obtain i1 s1 c1 where m: "(i1, s1, c1) \<in> set (matchAll ic r (i, s, c))"
    and st': "st' = (i1, s1, (n, take (i1 - i) s) # c1)" by auto
  from "8.IH" [OF m] st' show ?case by simp
next
  case (9 ic r st)
  then have "st' = st" by (auto split: list.splits)
  then show ?case by (intro exI [of _ 0]) simp
next
  case (10 ic i s c)
  then show ?case by (intro exI [of _ 0]) (auto split: if_splits)
next
  case (11 ic i s c)
  then show ?case by (intro exI [of _ 0]) (auto split: list.splits)
qed

lemma matchAll_groups:
  "st' \<in> set (matchAll ic r st) \<Longrightarrow>
     fst ` set (snd (snd st)) \<union> definedGroups r \<subseteq> fst ` set (snd (snd st'))"
proof (induction ic r st arbitrary: st' rule: matchAll.induct)
  case (3 ic r1 r2 st)
  from "3.prems" obtain mid where mid: "mid \<in> set (matchAll ic r1 st)" and st': "st' \<in> set (matchAll ic r2 mid)"
    by auto
  from "3.IH"(1) [OF mid] "3.IH"(2) [OF mid st'] show ?case
    by (simp only: definedGroups.simps) blast
next
  case (5 ic r i s c)
  from "5.prems" show ?case
  proof (cases rule: matchAll_Star_cases)
    case stop
    then show ?thesis by simp
  next
    case (iter i1 s1 c1)
    from "5.IH"(1) [OF iter(1)] "5.IH"(2) [OF iter(1) refl refl iter(2) iter(3)] show ?thesis
      by (simp only: definedGroups.simps snd_conv) blast
  qed
next
  case (6 ic r i s c)
  from "6.prems" show ?case
  proof (cases rule: matchAll_StarLazy_cases)
    case stop
    then show ?thesis by simp
  next
    case (iter i1 s1 c1)
    from "6.IH"(1) [OF iter(1)] "6.IH"(2) [OF iter(1) refl refl iter(2) iter(3)] show ?thesis
      by (simp only: definedGroups.simps snd_conv) blast
  qed
next
  case (7 ic r st)
  from "7.prems" have "st' = st \<or> st' \<in> set (matchAll ic r st)" by auto
  then show ?case
  proof
    assume "st' = st"
    then show ?thesis by simp
  next
    assume "st' \<in> set (matchAll ic r st)"
    from "7.IH" [OF this] show ?thesis by simp
  qed
next
  case (8 ic n r i s c)
  from "8.prems" obtain i1 s1 c1 where m: "(i1, s1, c1) \<in> set (matchAll ic r (i, s, c))"
    and st': "st' = (i1, s1, (n, take (i1 - i) s) # c1)" by auto
  from "8.IH" [OF m] st' show ?case by auto
next
  case (1 ic st)
  then show ?case by simp
next
  case (2 ic a i s c)
  then show ?case by (cases s) (auto split: if_splits)
next
  case (4 ic r1 r2 st)
  from "4.prems" have "st' \<in> set (matchAll ic r1 st) \<or> st' \<in> set (matchAll ic r2 st)" by simp
  then show ?case
  proof
    assume "st' \<in> set (matchAll ic r1 st)"
    from "4.IH"(1) [OF this] show ?thesis by (simp only: definedGroups.simps) blast
  next
    assume "st' \<in> set (matchAll ic r2 st)"
    from "4.IH"(2) [OF this] show ?thesis by (simp only: definedGroups.simps) blast
  qed
next
  case (9 ic r st)
  then have "st' = st" by (auto split: list.splits)
  then show ?case by simp
next
  case (10 ic i s c)
  then show ?case by (auto split: if_splits)
next
  case (11 ic i s c)
  then show ?case by (auto split: list.splits)
qed

lemma searchFrom_result:
  "searchFrom ic r i s = Some (start, st) \<Longrightarrow>
     i + minLen r \<le> fst st \<and> fst st \<le> i + length s \<and> definedGroups r \<subseteq> fst ` set (snd (snd st))"
proof (induction s arbitrary: i)
  case Nil
  then have "st \<in> set (matchAll ic r (i, [], []))" by (auto split: list.splits)
  from matchAll_consumes [OF this] matchAll_groups [OF this] show ?case by auto
next
  case (Cons x xs)
  show ?case
  proof (cases "matchAll ic r (i, x # xs, [])")
    case Nil
    with Cons.prems have "searchFrom ic r (Suc i) xs = Some (start, st)" by simp
    from Cons.IH [OF this] show ?thesis by simp
  next
    case (Cons st0 sts)
    with Cons.prems have "st \<in> set (matchAll ic r (i, x # xs, []))" by auto
    from matchAll_consumes [OF this] matchAll_groups [OF this] show ?thesis by auto
  qed
qed

lemma exec_result:
  assumes "exec ic r str lastIndex = Some (c, e)"
  shows "lastIndex + minLen r \<le> e" and "e \<le> length str"
    and "n \<in> definedGroups r \<Longrightarrow> capture c n \<noteq> None"
proof -
  from assms obtain start rest where le: "lastIndex \<le> length str"
    and s: "searchFrom ic r lastIndex (drop lastIndex str) = Some (start, (e, rest, c))"
    by (auto simp: exec_def split: if_splits option.splits)
  from searchFrom_result [OF s] le
  show "lastIndex + minLen r \<le> e" "e \<le> length str" by auto
  assume "n \<in> definedGroups r"
  with searchFrom_result [OF s] have "n \<in> fst ` set c" by auto
  then show "capture c n \<noteq> None"
    by (simp add: capture_def map_of_eq_None_iff)
qed

lemma minLen_Str [simp]: "minLen (Str p) = length p"
  by (induction p rule: Str.induct) auto

lemma minLen_qaPattern: "0 < minLen qaPattern"
  by (simp add: qaPattern_def)

lemma minLen_questionPattern: "0 < minLen questionPattern"
  by (simp add: questionPattern_def)

lemma definedGroups_qaPattern: "2 \<in> definedGroups qaPattern" "3 \<in> definedGroups qaPattern"
  by (simp_all add: qaPattern_def)

lemma definedGroups_questionPattern: "2 \<in> definedGroups questionPattern"
  by (simp add: questionPattern_def)

text \<open>The groups that the two loops read are set by every match.\<close>

lemma qaPattern_groups:
  assumes "exec False qaPattern str lastIndex = Some (m, e)"
  shows "capture m 2 \<noteq> None" and "capture m 3 \<noteq> None"
  using exec_result(3) [OF assms] definedGroups_qaPattern by blast+

lemma questionPattern_groups:
  assumes "exec False questionPattern str lastIndex = Some (m, e)"
  shows "capture m 2 \<noteq> None"
  using exec_result(3) [OF assms] definedGroups_questionPattern by blast

section \<open>Q/A extraction and the addendum splitter (qa-pairs-utils.ts)\<close>

datatype OpposingParty = Buyer | Seller

datatype QAMode = Full | Teaser

text \<open>The object returned by \<^verbatim>\<open>parseQAPairsFromContent\<close>.\<close>

record QAResult =
  qaPairs :: "QAPair list"
  opposingParty :: OpposingParty
  mode :: QAMode

text \<open>
  \<^verbatim>\<open>normalizeOpposingParty\<close>. The argument is \<open>None\<close> when the value is not a string.
\<close>

definition normalizeOpposingParty :: "string option \<Rightarrow> OpposingParty option" where
  "normalizeOpposingParty value =
     (case value of
        None \<Rightarrow> None
      | Some s \<Rightarrow>
          (let v = toLowerCase (trim s)
           in if v = ''buyer'' then Some Buyer
              else if v = ''seller'' then Some Seller
              else None))"

text \<open>
  \<^verbatim>\<open>content.lastIndexOf(needle)\<close>; \<open>None\<close> is the result \<^verbatim>\<open>-1\<close>.
\<close>

fun lastIndexOf :: "string \<Rightarrow> string \<Rightarrow> nat option" where
  "lastIndexOf [] needle = (if needle = [] then Some 0 else None)"
| "lastIndexOf (x # xs) needle =
     (case lastIndexOf xs needle of
        Some k \<Rightarrow> Some (Suc k)
      | None \<Rightarrow> if take (length needle) (x # xs) = needle then Some 0 else None)"

text \<open>
  \<^verbatim>\<open>extractCounterpartyMessage\<close>; \<open>None\<close> is \<^verbatim>\<open>null\<close>.
\<close>

definition extractCounterpartyMessage :: "string \<Rightarrow> string option" where
  "extractCounterpartyMessage content =
     (if test True counterpartyPattern content then
        (case lastIndexOf content ''\<newline>\<newline>'' of
           None \<Rightarrow> None
         | Some lastDoubleNewline \<Rightarrow>
             (let lastPart = drop (lastDoubleNewline + 2) content
              in if test True markerAtStart (trim lastPart) then Some (trim lastPart)
                 else None))
      else None)"

text \<open>
  The text that is parsed: \<^verbatim>\<open>content.substring(0, content.lastIndexOf('\n\n'))\<close> when
  there is a counterparty message (a string that is not empty), else the whole content.
  \<^verbatim>\<open>substring(0, -1)\<close> is the empty string.
\<close>

definition qaContentOf :: "string \<Rightarrow> string" where
  "qaContentOf content =
     (case extractCounterpartyMessage content of
        None \<Rightarrow> content
      | Some counterpartyMessage \<Rightarrow>
          if counterpartyMessage \<noteq> [] then
            (case lastIndexOf content ''\<newline>\<newline>'' of
               None \<Rightarrow> []
             | Some k \<Rightarrow> take k content)
          else content)"

text \<open>
  \<^verbatim>\<open>match[n].trim()\<close>. The groups read by the two loops take part in every match of
  their pattern (\<open>qaPattern_groups\<close>, \<open>questionPattern_groups\<close>), so the second case
  is never taken.
\<close>

definition trimmedGroup :: "(nat \<times> string) list \<Rightarrow> nat \<Rightarrow> string" where
  "trimmedGroup m n = (case capture m n of Some g \<Rightarrow> trim g | None \<Rightarrow> [])"

text \<open>
  \<^verbatim>\<open>while ((match = qaPattern.exec(qaContent)) !== null)\<close> of the full mode, from the
  given \<^verbatim>\<open>lastIndex\<close>. It terminates because every match of the pattern ends after
  the index at which the search started.
\<close>

function fullLoop :: "string \<Rightarrow> nat \<Rightarrow> QAPair list" where
  "fullLoop qaContent lastIndex =
     (case exec False qaPattern qaContent lastIndex of
        None \<Rightarrow> []
      | Some (match, lastIndex') \<Rightarrow>
          \<lparr>question = trimmedGroup match 2, answer = trimmedGroup match 3\<rparr>
            # fullLoop qaContent lastIndex')"
  by pat_completeness auto
termination
proof (relation "measure (\<lambda>(qaContent, lastIndex). Suc (length qaContent) - lastIndex)")
  show "wf (measure (\<lambda>(qaContent, lastIndex). Suc (length qaContent) - lastIndex))"
    by simp
next
  fix qaContent lastIndex x2 match lastIndex'
  assume "exec False qaPattern qaContent lastIndex = Some x2" "(match, lastIndex') = x2"
  then have e: "exec False qaPattern qaContent lastIndex = Some (match, lastIndex')"
    by simp
  from exec_result(1,2) [OF e] minLen_qaPattern
  show "((qaContent, lastIndex'), (qaContent, lastIndex))
          \<in> measure (\<lambda>(qaContent, lastIndex). Suc (length qaContent) - lastIndex)"
    by simp
qed

text \<open>
  \<^verbatim>\<open>while ((match = questionPattern.exec(qaContent)) !== null)\<close> of the teaser mode.
\<close>

function teaserLoop :: "string \<Rightarrow> nat \<Rightarrow> QAPair list" where
  "teaserLoop qaContent lastIndex =
     (case exec False questionPattern qaContent lastIndex of
        None \<Rightarrow> []
      | Some (match, lastIndex') \<Rightarrow>
          \<lparr>question = trimmedGroup match 2, answer = ''''\<rparr>
            # teaserLoop qaContent lastIndex')"
  by pat_completeness auto
termination
proof (relation "measure (\<lambda>(qaContent, lastIndex). Suc (length qaContent) - lastIndex)")
  show "wf (measure (\<lambda>(qaContent, lastIndex). Suc (length qaContent) - lastIndex))"
    by simp
next
  fix qaContent lastIndex x2 match lastIndex'
  assume "exec False questionPattern qaContent lastIndex = Some x2" "(match, lastIndex') = x2"
  then have e: "exec False questionPattern qaContent lastIndex = Some (match, lastIndex')"
    by simp
  from exec_result(1,2) [OF e] minLen_questionPattern
  show "((qaContent, lastIndex'), (qaContent, lastIndex))
          \<in> measure (\<lambda>(qaContent, lastIndex). Suc (length qaContent) - lastIndex)"
    by simp
qed

declare fullLoop.simps [simp del] teaserLoop.simps [simp del]

text \<open>
  The party of a header: the captured one when it is \<^verbatim>\<open>buyer\<close> or \<^verbatim>\<open>seller\<close>
  in lower case, else the normalized hint, else \<^verbatim>\<open>"buyer"\<close>.
\<close>

definition resolveParty :: "string option \<Rightarrow> string option \<Rightarrow> OpposingParty" where
  "resolveParty captured opposingPartyHint =
     (let capturedParty = map_option toLowerCase captured
      in if capturedParty = Some ''buyer'' then Buyer
         else if capturedParty = Some ''seller'' then Seller
         else (case normalizeOpposingParty opposingPartyHint of
                 Some p \<Rightarrow> p
               | None \<Rightarrow> Buyer))"

text \<open>
  \<^verbatim>\<open>parseQAPairsFromContent\<close> from the full-mode header on, on the text \<open>qaContent\<close>.
\<close>

definition parseQAContent :: "string \<Rightarrow> string option \<Rightarrow> QAResult option" where
  "parseQAContent qaContent opposingPartyHint =
     (case regexMatch True fullHeaderRegex qaContent of
        Some fullHeaderMatch \<Rightarrow>
          (let opposingParty = resolveParty (capture fullHeaderMatch 2) opposingPartyHint;
               qaPairs = fullLoop qaContent 0
           in if length qaPairs = 0 then None
              else Some \<lparr>qaPairs = qaPairs, opposingParty = opposingParty, mode = Full\<rparr>)
      | None \<Rightarrow>
          (case regexMatch True teaserHeaderRegex qaContent of
             Some teaserHeaderMatch \<Rightarrow>
               (let opposingParty = resolveParty (capture teaserHeaderMatch 1) opposingPartyHint;
                    qaPairs = teaserLoop qaContent 0
                in if length qaPairs = 0 then None
                   else Some \<lparr>qaPairs = qaPairs, opposingParty = opposingParty, mode = Teaser\<rparr>)
           | None \<Rightarrow> None))"

text \<open>
  \<^verbatim>\<open>parseQAPairsFromContent(content, { opposingPartyHint })\<close>; \<open>None\<close> is
  \<^verbatim>\<open>null\<close>.
\<close>

definition parseQAPairsFromContent :: "string \<Rightarrow> string option \<Rightarrow> QAResult option" where
  "parseQAPairsFromContent content opposingPartyHint =
     parseQAContent (qaContentOf content) opposingPartyHint"

text \<open>The texts of the examples.\<close>

definition addendumExample :: string where
  "addendumExample =
     ''**1. Q?**\<newline>A\<newline>\<newline>the counterparty has answered your question: X''"

definition addendumWithHeader :: string where
  "addendumWithHeader =
     ''Here are 1 vetting answers from the matched seller:\<newline>'' @ addendumExample"

definition bothHeaders :: string where
  "bothHeaders =
     ''here are 1 vetting answers from the matched buyer: The matched buyer has answered 1 vetting question.\<newline>**1. Q?**\<newline>Yes, always''"

definition bothHeadersBlankAnswer :: string where
  "bothHeadersBlankAnswer =
     ''here are 1 vetting answers from the matched buyer: The matched buyer has answered 1 vetting question.\<newline>**1. Q?**\<newline> ''"

definition fullHeaderOnly :: string where
  "fullHeaderOnly = ''Here are 2 vetting answers from the matched seller: none yet''"

definition teaserHeaderOnly :: string where
  "teaserHeaderOnly = ''The matched opposing party has answered 3 vetting questions. Stay tuned''"

subsection \<open>Notions used to state the properties of the addendum splitter\<close>

text \<open>
  The last segment of a text separated by double line breaks: the text after the last
  \<^verbatim>\<open>\n\n\<close>, the whole text when there is none.
\<close>

definition lastSegment :: "string \<Rightarrow> string" where
  "lastSegment content =
     (case lastIndexOf content ''\<newline>\<newline>'' of
        None \<Rightarrow> content
      | Some k \<Rightarrow> drop (k + 2) content)"

text \<open>The text begins with the phrase, letter case ignored.\<close>

definition beginsWithIgnoringCase :: "string \<Rightarrow> string \<Rightarrow> bool" where
  "beginsWithIgnoringCase phrase s \<longleftrightarrow>
     length phrase \<le> length s
     \<and> map canonicalize (take (length phrase) s) = map canonicalize phrase"

section \<open>The Q/A cache of the thread view (components/thread/index.tsx)\<close>






section \<open>The assistant message of the transcript (messages/ai.tsx)\<close>

text \<open>
  What \<^verbatim>\<open>AssistantMessage\<close> returns: \<^verbatim>\<open>null\<close>, or an element whose
  \<^verbatim>\<open>MarkdownText\<close> shows the given text.
\<close>

datatype Rendered = RenderNull | RenderMarkdown string

datatype JsError = TypeError

text \<open>
  \<^verbatim>\<open>AssistantMessage\<close>, from \<^verbatim>\<open>thread.messages\<close> of the stream context and the
  property \<^verbatim>\<open>message\<close> (\<open>None\<close> is \<^verbatim>\<open>undefined\<close>). Reading
  \<^verbatim>\<open>thread.messages[thread.messages.length - 1].id\<close> throws when the list is empty.
  The parser is called without a hint.
\<close>

definition AssistantMessage :: "Message list \<Rightarrow> Message option \<Rightarrow> JsError + Rendered" where
  "AssistantMessage thread_messages message =
     (let contentString =
            (case message of
               None \<Rightarrow> getContentString (ContentBlocks [])
             | Some m \<Rightarrow> getContentString (msg_content m))
      in if thread_messages = [] then Inl TypeError
         else
           let isQAPairsMessage =
                 (case parseQAPairsFromContent contentString None of
                    None \<Rightarrow> False | Some parsed \<Rightarrow> True);
               counterpartyMessage = extractCounterpartyMessage contentString;
               isToolResult =
                 (case message of None \<Rightarrow> False | Some m \<Rightarrow> msg_type m = ''tool'')
           in if isToolResult then Inr RenderNull
              else
                let trimmedContent = toLowerCase (trim contentString)
                in if (case message of None \<Rightarrow> True | Some m \<Rightarrow> False)
                      \<or> trimmedContent = [] \<or> trimmedContent = ''null''
                   then Inr RenderNull
                   else
                     (case counterpartyMessage of
                        Some cm \<Rightarrow>
                          if isQAPairsMessage \<and> cm \<noteq> [] then Inr (RenderMarkdown cm)
                          else if isQAPairsMessage then Inr RenderNull
                          else Inr (RenderMarkdown contentString)
                      | None \<Rightarrow>
                          if isQAPairsMessage then Inr RenderNull
                          else Inr (RenderMarkdown contentString)))"

section \<open>Polling of the history (providers/Stream.tsx)\<close>

text \<open>
  The state of \<^verbatim>\<open>StreamSession\<close> that polling reads and writes: the thread id of the
  last render, the state \<^verbatim>\<open>polledMessages\<close>, the ref \<^verbatim>\<open>lastPollRef\<close>, and the
  calls of \<^verbatim>\<open>refreshHistory\<close> whose \<^verbatim>\<open>fetch\<close> has not resolved yet, each with
  the thread id of its closure.
\<close>

record StreamSession =
  session_threadId :: "string option"
  polledMessages :: "Message list option"
  lastPollRef :: string
  inFlight :: "string list"

text \<open>
  The body of a history response: not an array, or the array of states, each with its
  \<^verbatim>\<open>values.messages\<close> when that is an array.
\<close>

datatype HistoryBody = NotAnArray | States "Message list option list"

datatype PollResponse = FetchRejected | StatusNotOk | StatusOk HistoryBody

text \<open>
  \<^verbatim>\<open>JSON.stringify(newMessages.map(m => ({ id: m.id, content: m.content })))\<close>;
  a property that is \<^verbatim>\<open>undefined\<close> is left out.
\<close>

definition messagesHash :: "Message list \<Rightarrow> string" where
  "messagesHash newMessages =
     JSON_stringify (JArray (map (\<lambda>m. JObject
        ((case msg_id m of None \<Rightarrow> [] | Some i \<Rightarrow> [(''id'', JString i)])
         @ [(''content'', contentToJson (msg_content m))])) newMessages))"

text \<open>\<^verbatim>\<open>refreshHistory\<close> from the point where its \<^verbatim>\<open>fetch\<close> resolves.\<close>

fun applyPollResponse :: "PollResponse \<Rightarrow> StreamSession \<Rightarrow> StreamSession" where
  "applyPollResponse FetchRejected s = s"
| "applyPollResponse StatusNotOk s = s"
| "applyPollResponse (StatusOk NotAnArray) s = s"
| "applyPollResponse (StatusOk (States [])) s = s"
| "applyPollResponse (StatusOk (States (latestState # older))) s =
     (case latestState of
        None \<Rightarrow> s
      | Some newMessages \<Rightarrow>
          if length newMessages > 0 then
            (let newHash = messagesHash newMessages
             in if newHash \<noteq> lastPollRef s
                then s\<lparr>lastPollRef := newHash, polledMessages := Some newMessages\<rparr>
                else s)
          else s)"

text \<open>
  The events of a session: a timer calls \<^verbatim>\<open>refreshHistory\<close>; the \<^verbatim>\<open>fetch\<close> of
  the \<open>n\<close>-th pending call resolves; the thread id is set. The effect on
  \<^verbatim>\<open>[threadId]\<close>, which resets the polled state, runs only when the id differs from
  the one of the last render. The server is a parameter: its response to the history
  request of each thread.
\<close>

datatype SessionEvent =
    RefreshStarted
  | RefreshResolved nat
  | ThreadIdChanged "string option"

fun sessionStep ::
  "(string \<Rightarrow> PollResponse) \<Rightarrow> StreamSession \<Rightarrow> SessionEvent \<Rightarrow> StreamSession" where
  "sessionStep server s RefreshStarted =
     (case session_threadId s of
        None \<Rightarrow> s
      | Some t \<Rightarrow> if t = [] then s else s\<lparr>inFlight := inFlight s @ [t]\<rparr>)"
| "sessionStep server s (RefreshResolved n) =
     (if n < length (inFlight s)
      then applyPollResponse (server (inFlight s ! n))
             (s\<lparr>inFlight := take n (inFlight s) @ drop (Suc n) (inFlight s)\<rparr>)
      else s)"
| "sessionStep server s (ThreadIdChanged t) =
     (if t = session_threadId s then s
      else s\<lparr>session_threadId := t, polledMessages := None, lastPollRef := ''''\<rparr>)"

definition runSession ::
  "(string \<Rightarrow> PollResponse) \<Rightarrow> StreamSession \<Rightarrow> SessionEvent list \<Rightarrow> StreamSession" where
  "runSession server s events = foldl (sessionStep server) s events"

text \<open>
  Example data: a server that knows the five messages of thread \<open>t1\<close> and nothing of any
  other thread, and a session opened on \<open>t1\<close>.
\<close>

definition exampleServer :: "string \<Rightarrow> PollResponse" where
  "exampleServer t = (if t = ''t1'' then StatusOk (States [Some polled5]) else StatusOk (States []))"

definition sessionOnT1 :: StreamSession where
  "sessionOnT1 =
     \<lparr>session_threadId = Some ''t1'', polledMessages = None, lastPollRef = '''', inFlight = []\<rparr>"


section \<open>Properties of the deduplicator\<close>

lemma lastIndexOfKey_None: "lastIndexOfKey ps k = None \<longleftrightarrow> k \<notin> normalizedQuestion ` set ps"
  by (induction ps) (auto split: option.splits)

lemma firstPass_lookup:
  "firstPass ps i m k =
     (case lastIndexOfKey ps k of Some j \<Rightarrow> Some (i + j) | None \<Rightarrow> m k)"
  by (induction ps arbitrary: i m) (auto split: option.splits)

lemma secondPass_keepLast:
  assumes "\<And>k. case lastIndexOfKey ps k of
               Some j \<Rightarrow> m k = Some (i + j)
             | None \<Rightarrow> (\<forall>v. m k = Some v \<longrightarrow> v < i)"
  shows "secondPass ps i m result = result @ keepLast normalizedQuestion ps"
  using assms
proof (induction ps arbitrary: i result)
  case Nil
  show ?case by simp
next
  case (Cons p ps)
  have here: "m (normalizedQuestion p) = Some i \<longleftrightarrow>
                normalizedQuestion p \<notin> normalizedQuestion ` set ps"
  proof (cases "lastIndexOfKey ps (normalizedQuestion p)")
    case None
    with Cons.prems [of "normalizedQuestion p"] show ?thesis
      by (simp add: lastIndexOfKey_None)
  next
    case (Some j)
    then have "normalizedQuestion p \<in> normalizedQuestion ` set ps"
      using lastIndexOfKey_None [of ps "normalizedQuestion p"] by auto
    moreover from Some Cons.prems [of "normalizedQuestion p"]
    have "m (normalizedQuestion p) = Some (i + Suc j)" by simp
    ultimately show ?thesis by simp
  qed
  have inv: "case lastIndexOfKey ps k of
               Some j \<Rightarrow> m k = Some (Suc i + j)
             | None \<Rightarrow> (\<forall>v. m k = Some v \<longrightarrow> v < Suc i)" for k
    using Cons.prems [of k]
    by (cases "lastIndexOfKey ps k") (auto split: if_splits simp: less_Suc_eq)
  show ?case
    using Cons.IH [OF inv] here by simp
qed

lemma deduplicateQAPairs_keepLast:
  "deduplicateQAPairs pairs = keepLast normalizedQuestion pairs"
proof (cases pairs)
  case Nil
  then show ?thesis by (simp add: deduplicateQAPairs_def)
next
  case (Cons p ps)
  have "secondPass pairs 0 (firstPass pairs 0 Map.empty) [] =
          [] @ keepLast normalizedQuestion pairs"
    by (rule secondPass_keepLast) (simp add: firstPass_lookup split: option.splits)
  with Cons show ?thesis by (simp add: deduplicateQAPairs_def)
qed

lemma keepLast_keys: "key ` set (keepLast key xs) = key ` set xs"
  by (induction xs) auto

lemma keepLast_distinct: "distinct (map key (keepLast key xs))"
proof (induction xs)
  case Nil
  show ?case by simp
next
  case (Cons x xs)
  have "set (map key (keepLast key xs)) = key ` set xs"
    using keepLast_keys [of key xs] by simp
  with Cons show ?case by simp
qed

lemma keepLast_id: "distinct (map key xs) \<Longrightarrow> keepLast key xs = xs"
  by (induction xs) auto

lemma isLastOccurrence_0:
  "isLastOccurrence (p # ps) 0 \<longleftrightarrow> normalizedQuestion p \<notin> normalizedQuestion ` set ps"
proof
  assume l: "isLastOccurrence (p # ps) 0"
  show "normalizedQuestion p \<notin> normalizedQuestion ` set ps"
  proof
    assume "normalizedQuestion p \<in> normalizedQuestion ` set ps"
    then obtain j where "j < length ps" "normalizedQuestion (ps ! j) = normalizedQuestion p"
      by (auto simp: in_set_conv_nth)
    with l [unfolded isLastOccurrence_def, rule_format, of "Suc j"] show False by simp
  qed
next
  assume n: "normalizedQuestion p \<notin> normalizedQuestion ` set ps"
  show "isLastOccurrence (p # ps) 0"
    unfolding isLastOccurrence_def
  proof (intro allI impI)
    fix j assume "j < length (p # ps)" "0 < j"
    then obtain j' where "j = Suc j'" "j' < length ps" by (cases j) auto
    with n show "normalizedQuestion ((p # ps) ! j) \<noteq> normalizedQuestion ((p # ps) ! 0)"
      by (metis image_eqI nth_Cons_0 nth_Cons_Suc nth_mem)
  qed
qed

lemma isLastOccurrence_Suc:
  "isLastOccurrence (p # ps) (Suc i) \<longleftrightarrow> isLastOccurrence ps i"
proof
  assume l: "isLastOccurrence (p # ps) (Suc i)"
  show "isLastOccurrence ps i"
    unfolding isLastOccurrence_def
  proof (intro allI impI)
    fix j assume "j < length ps" "i < j"
    with l [unfolded isLastOccurrence_def, rule_format, of "Suc j"]
    show "normalizedQuestion (ps ! j) \<noteq> normalizedQuestion (ps ! i)" by simp
  qed
next
  assume l: "isLastOccurrence ps i"
  show "isLastOccurrence (p # ps) (Suc i)"
    unfolding isLastOccurrence_def
  proof (intro allI impI)
    fix j assume "j < length (p # ps)" "Suc i < j"
    then obtain j' where j: "j = Suc j'" "j' < length ps" "i < j'" by (cases j) auto
    with l [unfolded isLastOccurrence_def, rule_format, of j']
    show "normalizedQuestion ((p # ps) ! j) \<noteq> normalizedQuestion ((p # ps) ! Suc i)"
      by simp
  qed
qed

lemma keepLast_lastOccurrences: "keepLast normalizedQuestion pairs = lastOccurrences pairs"
proof (induction pairs)
  case Nil
  show ?case by (simp add: lastOccurrences_def)
next
  case (Cons p ps)
  have idx: "[0..<length (p # ps)] = 0 # map Suc [0..<length ps]"
    by (simp add: upt_conv_Cons map_Suc_upt del: upt_Suc)
  have tl: "map (\<lambda>i. (p # ps) ! i)
              (filter (isLastOccurrence (p # ps)) (map Suc [0..<length ps])) =
            lastOccurrences ps"
    by (simp add: lastOccurrences_def filter_map comp_def isLastOccurrence_Suc)
  show ?case
    unfolding lastOccurrences_def idx
    using tl Cons.IH by (simp add: isLastOccurrence_0)
qed

text \<open>
  C2 (as the code has it). The output has exactly one entry per distinct normalized
  question of the input; it consists of the input entries at the last occurrence of each
  normalized question, in input order, so every question stands at the slot of its last
  occurrence (not of its first) with the content of that last occurrence. On the example
  of the specification the result is \<open>[(Budget?, ""), (are pets allowed?, Yes)]\<close>.
\<close>

theorem deduplicateQAPairs_last_occurrences:
  "distinct (map normalizedQuestion (deduplicateQAPairs pairs))
   \<and> normalizedQuestion ` set (deduplicateQAPairs pairs) = normalizedQuestion ` set pairs
   \<and> deduplicateQAPairs pairs = lastOccurrences pairs
   \<and> deduplicateQAPairs petsExample =
       [\<lparr>question = ''Budget?'', answer = ''''\<rparr>,
        \<lparr>question = ''are pets allowed?'', answer = ''Yes''\<rparr>]"
proof -
  have ex: "deduplicateQAPairs petsExample =
       [\<lparr>question = ''Budget?'', answer = ''''\<rparr>,
        \<lparr>question = ''are pets allowed?'', answer = ''Yes''\<rparr>]"
    unfolding petsExample_def by code_simp
  have d: "distinct (map normalizedQuestion (deduplicateQAPairs pairs))"
    by (simp only: deduplicateQAPairs_keepLast keepLast_distinct)
  have k: "normalizedQuestion ` set (deduplicateQAPairs pairs) =
             normalizedQuestion ` set pairs"
    by (simp only: deduplicateQAPairs_keepLast keepLast_keys)
  have l: "deduplicateQAPairs pairs = lastOccurrences pairs"
    by (simp only: deduplicateQAPairs_keepLast keepLast_lastOccurrences)
  from d k l ex show ?thesis by blast
qed

theorem deduplicateQAPairs_last_occurrences_witness:
  "deduplicateQAPairs petsExample = lastOccurrences petsExample
   \<and> lastOccurrences petsExample =
       [\<lparr>question = ''Budget?'', answer = ''''\<rparr>,
        \<lparr>question = ''are pets allowed?'', answer = ''Yes''\<rparr>]
   \<and> map normalizedQuestion (deduplicateQAPairs petsExample) =
       [''budget?'', ''are pets allowed?'']"
proof -
  have n: "map normalizedQuestion
          [\<lparr>question = ''Budget?'', answer = ''''\<rparr>,
           \<lparr>question = ''are pets allowed?'', answer = ''Yes''\<rparr>] =
        [''budget?'', ''are pets allowed?'']"
    by code_simp
  have l: "deduplicateQAPairs petsExample = lastOccurrences petsExample"
    and e: "deduplicateQAPairs petsExample =
       [\<lparr>question = ''Budget?'', answer = ''''\<rparr>,
        \<lparr>question = ''are pets allowed?'', answer = ''Yes''\<rparr>]"
    using deduplicateQAPairs_last_occurrences [of petsExample]
    by (rule conjunct1 [OF conjunct2 [OF conjunct2]],
        rule conjunct2 [OF conjunct2 [OF conjunct2]])
  have lo: "lastOccurrences petsExample =
       [\<lparr>question = ''Budget?'', answer = ''''\<rparr>,
        \<lparr>question = ''are pets allowed?'', answer = ''Yes''\<rparr>]"
    by (simp only: l [symmetric] e)
  have c: "map normalizedQuestion (deduplicateQAPairs petsExample) =
       [''budget?'', ''are pets allowed?'']"
    by (simp only: e n)
  show ?thesis
    by (intro conjI l lo c)
qed

text \<open>
  C2 as stated fails: on the example of the specification the code does not return
  \<open>[(Are pets allowed?, Yes), (Budget?, "")]\<close>.
\<close>

theorem deduplicateQAPairs_first_slot_counterexample:
  "deduplicateQAPairs petsExample \<noteq>
     [\<lparr>question = ''Are pets allowed?'', answer = ''Yes''\<rparr>,
      \<lparr>question = ''Budget?'', answer = ''''\<rparr>]"
  unfolding petsExample_def by code_simp

text \<open>
  C9. The deduplicator is idempotent: applied to its own output it returns that output.
\<close>

theorem deduplicateQAPairs_idempotent:
  "deduplicateQAPairs (deduplicateQAPairs pairs) = deduplicateQAPairs pairs"
  by (simp add: deduplicateQAPairs_keepLast keepLast_id keepLast_distinct)

theorem deduplicateQAPairs_idempotent_witness:
  "deduplicateQAPairs (deduplicateQAPairs petsExample) =
     [\<lparr>question = ''Budget?'', answer = ''''\<rparr>,
      \<lparr>question = ''are pets allowed?'', answer = ''Yes''\<rparr>]"
proof -
  have "deduplicateQAPairs petsExample =
     [\<lparr>question = ''Budget?'', answer = ''''\<rparr>,
      \<lparr>question = ''are pets allowed?'', answer = ''Yes''\<rparr>]"
    unfolding petsExample_def by code_simp
  then show ?thesis
    using deduplicateQAPairs_idempotent [of petsExample] by simp
qed


section \<open>Properties of the reconciler\<close>

text \<open>
  C1. For all message lists \<open>streamList\<close> and \<open>polledList\<close>: the output is \<open>streamList\<close>
  whenever the stream is active; otherwise \<open>polledList\<close> when it is strictly longer;
  otherwise \<open>polledList\<close> when the lengths are equal and not zero and the serialized
  contents of the final elements differ; otherwise \<open>streamList\<close>. A list that is
  \<^verbatim>\<open>null\<close> or \<^verbatim>\<open>undefined\<close> counts as the empty list.
\<close>

theorem effectiveMessages_cases:
  "(isStreamActive \<longrightarrow>
      effectiveMessages (Some streamList) (Some polledList) isStreamActive = streamList)
   \<and> (\<not> isStreamActive \<and> length polledList > length streamList \<longrightarrow>
      effectiveMessages (Some streamList) (Some polledList) isStreamActive = polledList)
   \<and> (\<not> isStreamActive \<and> \<not> length polledList > length streamList
        \<and> length polledList = length streamList \<and> length polledList \<noteq> 0
        \<and> JSON_stringify (contentToJson (msg_content (last polledList))) \<noteq>
            JSON_stringify (contentToJson (msg_content (last streamList))) \<longrightarrow>
      effectiveMessages (Some streamList) (Some polledList) isStreamActive = polledList)
   \<and> (\<not> isStreamActive \<and> \<not> length polledList > length streamList
        \<and> \<not> (length polledList = length streamList \<and> length polledList \<noteq> 0
             \<and> JSON_stringify (contentToJson (msg_content (last polledList))) \<noteq>
                 JSON_stringify (contentToJson (msg_content (last streamList)))) \<longrightarrow>
      effectiveMessages (Some streamList) (Some polledList) isStreamActive = streamList)
   \<and> effectiveMessages None polledOpt isStreamActive =
       effectiveMessages (Some []) polledOpt isStreamActive
   \<and> effectiveMessages streamOpt None isStreamActive =
       effectiveMessages streamOpt (Some []) isStreamActive"
  by (auto simp: effectiveMessages_def lastContentJSON_def)

theorem effectiveMessages_cases_witness:
  "effectiveMessages (Some stream3) (Some polled5) True = stream3
   \<and> effectiveMessages (Some stream3) (Some polled5) False = polled5
   \<and> effectiveMessages (Some stream3) (Some polled3) False = polled3
   \<and> effectiveMessages (Some stream3) (Some stream3) False = stream3"
proof -
  have l: "length polled5 > length stream3" "length polled3 = length stream3"
    "length polled3 \<noteq> 0" "length stream3 \<noteq> 0"
    by (simp_all add: polled5_def polled3_def stream3_def)
  have d: "JSON_stringify (contentToJson (msg_content (last polled3))) \<noteq>
           JSON_stringify (contentToJson (msg_content (last stream3)))"
    unfolding polled3_def stream3_def textMessage_def by code_simp
  show ?thesis
    using effectiveMessages_cases [of True stream3 polled5 None None]
      effectiveMessages_cases [of False stream3 polled5 None None]
      effectiveMessages_cases [of False stream3 polled3 None None]
      effectiveMessages_cases [of False stream3 stream3 None None] l d
    by simp
qed

text \<open>
  C3 as stated fails: with the lists unchanged (three stream messages, five polled ones),
  the stream becoming active shortens the reconciled output from five messages to three.
\<close>

theorem effectiveMessages_length_counterexample:
  "length (effectiveMessages (Some stream3) (Some polled5) True) <
   length (effectiveMessages (Some stream3) (Some polled5) False)"
  by (simp add: effectiveMessages_def stream3_def polled5_def)

text \<open>
  C3 (as the code has it). The reconciled output has the length of the stream list while
  the stream is active, and the larger of the two lengths otherwise. So its length does not
  decrease across an update in which neither list gets shorter and the stream does not
  switch from inactive to active.
\<close>

theorem effectiveMessages_length_monotone:
  "length (effectiveMessages (Some streamList) (Some polledList) True) = length streamList
   \<and> length (effectiveMessages (Some streamList) (Some polledList) False) =
       max (length streamList) (length polledList)
   \<and> (length streamList \<le> length streamList' \<and> length polledList \<le> length polledList'
        \<and> (isStreamActive' \<longrightarrow> isStreamActive) \<longrightarrow>
      length (effectiveMessages (Some streamList) (Some polledList) isStreamActive) \<le>
      length (effectiveMessages (Some streamList') (Some polledList') isStreamActive'))"
  by (auto simp: effectiveMessages_def Let_def)

theorem effectiveMessages_length_monotone_witness:
  "length (effectiveMessages (Some stream3) (Some polled3) False) \<le>
   length (effectiveMessages (Some stream3) (Some polled5) False)
   \<and> length (effectiveMessages (Some stream3) (Some polled5) False) = 5"
proof -
  have l: "length stream3 = 3" "length polled3 = 3" "length polled5 = 5"
    by (simp_all add: polled5_def polled3_def stream3_def)
  show ?thesis
    using effectiveMessages_length_monotone
      [of stream3 polled3 stream3 polled5 False False]
      effectiveMessages_length_monotone [of stream3 polled5] l
    by simp
qed

section \<open>Properties of the Q/A extraction and of the addendum splitter\<close>

lemma matchAll_Str:
  "matchAll True (Str p) (i, s, c) =
     (if beginsWithIgnoringCase p s then [(i + length p, drop (length p) s, c)] else [])"
proof (induction p arbitrary: i s rule: Str.induct)
  case 1
  show ?case by (simp add: beginsWithIgnoringCase_def)
next
  case (2 ch)
  show ?case by (cases s) (auto simp: beginsWithIgnoringCase_def)
next
  case (3 ch v va)
  show ?case
  proof (cases s)
    case Nil
    then show ?thesis by (simp add: beginsWithIgnoringCase_def)
  next
    case (Cons x xs)
    with "3" [of "Suc i" xs] show ?thesis
      by (auto simp: beginsWithIgnoringCase_def)
  qed
qed

lemma searchFrom_Bol: "0 < i \<Longrightarrow> searchFrom ic (Seq Bol r) i s = None"
  by (induction s arbitrary: i) auto

lemma test_markerAtStart:
  "test True markerAtStart t \<longleftrightarrow> beginsWithIgnoringCase markerPhrase t"
proof (cases t)
  case Nil
  then show ?thesis
    by (simp add: test_def exec_def markerAtStart_def matchAll_Str)
next
  case (Cons x xs)
  then show ?thesis
    by (simp add: test_def exec_def markerAtStart_def matchAll_Str searchFrom_Bol)
qed

lemma extractCounterpartyMessage_None:
  assumes "\<not> beginsWithIgnoringCase markerPhrase (trim (lastSegment content))"
  shows "extractCounterpartyMessage content = None"
proof (cases "lastIndexOf content ''\<newline>\<newline>''")
  case None
  then show ?thesis by (simp add: extractCounterpartyMessage_def)
next
  case (Some k)
  with assms have "\<not> test True markerAtStart (trim (drop (k + 2) content))"
    by (simp add: lastSegment_def test_markerAtStart)
  with Some show ?thesis by (simp add: extractCounterpartyMessage_def)
qed

lemma extractCounterpartyMessage_Some:
  assumes "extractCounterpartyMessage content = Some cm"
  shows "\<exists>k. lastIndexOf content ''\<newline>\<newline>'' = Some k
           \<and> qaContentOf content = take k content
           \<and> cm = trim (drop (k + 2) content)"
proof -
  from assms obtain k where k: "lastIndexOf content ''\<newline>\<newline>'' = Some k"
    and t: "test True markerAtStart (trim (drop (k + 2) content))"
    and cm: "cm = trim (drop (k + 2) content)"
    by (auto simp: extractCounterpartyMessage_def Let_def split: if_splits option.splits)
  from t cm have "beginsWithIgnoringCase markerPhrase cm"
    by (simp add: test_markerAtStart)
  then have "cm \<noteq> []"
    by (auto simp: beginsWithIgnoringCase_def markerPhrase_def)
  with assms k have "qaContentOf content = take k content"
    by (simp add: qaContentOf_def)
  with k cm show ?thesis by blast
qed

lemma parseQAContent_full:
  assumes "regexMatch True fullHeaderRegex qaContent = Some fullHeaderMatch"
    and "fullLoop qaContent 0 \<noteq> []"
  shows "parseQAContent qaContent hint =
           Some \<lparr>qaPairs = fullLoop qaContent 0,
                 opposingParty = resolveParty (capture fullHeaderMatch 2) hint,
                 mode = Full\<rparr>"
  using assms by (simp add: parseQAContent_def Let_def)

lemma parseQAContent_no_entries:
  assumes "(regexMatch True fullHeaderRegex qaContent \<noteq> None \<and> fullLoop qaContent 0 = [])
         \<or> (regexMatch True fullHeaderRegex qaContent = None
            \<and> regexMatch True teaserHeaderRegex qaContent \<noteq> None
            \<and> teaserLoop qaContent 0 = [])"
  shows "parseQAContent qaContent hint = None"
  using assms by (auto simp: parseQAContent_def Let_def)

lemma parseQAContent_no_header:
  assumes "regexMatch True fullHeaderRegex qaContent = None"
    and "regexMatch True teaserHeaderRegex qaContent = None"
  shows "parseQAContent qaContent hint = None"
  using assms by (simp add: parseQAContent_def)

subsection \<open>The examples, evaluated\<close>

lemma extract_addendumExample:
  "extractCounterpartyMessage addendumExample =
     Some ''the counterparty has answered your question: X''"
  by code_simp

lemma qaContentOf_addendumExample: "qaContentOf addendumExample = ''**1. Q?**\<newline>A''"
  by code_simp

lemma no_header_in_addendumExample:
  "regexMatch True fullHeaderRegex ''**1. Q?**\<newline>A'' = None"
  "regexMatch True teaserHeaderRegex ''**1. Q?**\<newline>A'' = None"
  by code_simp+

lemma parse_addendumExample: "parseQAPairsFromContent addendumExample hint = None"
  by (simp only: parseQAPairsFromContent_def qaContentOf_addendumExample
      parseQAContent_no_header [OF no_header_in_addendumExample])

lemma parse_addendumWithHeader:
  "parseQAPairsFromContent addendumWithHeader None =
     Some \<lparr>qaPairs = [\<lparr>question = ''Q?'', answer = ''A''\<rparr>],
           opposingParty = Seller, mode = Full\<rparr>"
  by code_simp

lemma qaContentOf_bothHeaders: "qaContentOf bothHeaders = bothHeaders"
  by code_simp

lemma headers_of_bothHeaders:
  "regexMatch True fullHeaderRegex bothHeaders = Some [(2, ''buyer''), (1, ''1'')]"
  "test True teaserHeaderRegex bothHeaders"
  by code_simp+

lemma fullLoop_bothHeaders:
  "fullLoop bothHeaders 0 = [\<lparr>question = ''Q?'', answer = ''Yes, always''\<rparr>]"
  by code_simp

lemma parse_bothHeadersBlankAnswer:
  "parseQAPairsFromContent bothHeadersBlankAnswer None =
     Some \<lparr>qaPairs = [\<lparr>question = ''Q?'', answer = ''''\<rparr>],
           opposingParty = Buyer, mode = Full\<rparr>"
  by code_simp

lemma headers_of_bothHeadersBlankAnswer:
  "test True fullHeaderRegex bothHeadersBlankAnswer"
  "test True teaserHeaderRegex bothHeadersBlankAnswer"
  by code_simp+

lemma fullHeaderOnly_facts:
  "qaContentOf fullHeaderOnly = fullHeaderOnly"
  "regexMatch True fullHeaderRegex fullHeaderOnly = Some [(2, ''seller''), (1, ''2'')]"
  "fullLoop fullHeaderOnly 0 = []"
  by code_simp+

lemma teaserHeaderOnly_facts:
  "qaContentOf teaserHeaderOnly = teaserHeaderOnly"
  "regexMatch True fullHeaderRegex teaserHeaderOnly = None"
  "regexMatch True teaserHeaderRegex teaserHeaderOnly = Some [(2, ''3''), (1, ''opposing party'')]"
  "teaserLoop teaserHeaderOnly 0 = []"
  by code_simp+

text \<open>
  C6 (as the code has it). When the text that is parsed (the text before the addendum
  split, the whole text when there is no addendum) has a full-mode header and the entry
  pattern of the full mode finds at least one entry there, the extractor returns the
  full-mode result, whether or not a teaser-mode header is present: the mode is full, never
  teaser, and the items are those of the full-mode loop, each with its trimmed question and
  its trimmed answer text.
\<close>

theorem parse_full_mode_precedence:
  assumes "regexMatch True fullHeaderRegex (qaContentOf content) = Some fullHeaderMatch"
    and "fullLoop (qaContentOf content) 0 \<noteq> []"
  shows "\<exists>r. parseQAPairsFromContent content hint = Some r
             \<and> mode r = Full \<and> mode r \<noteq> Teaser
             \<and> qaPairs r = fullLoop (qaContentOf content) 0 \<and> qaPairs r \<noteq> []
             \<and> opposingParty r = resolveParty (capture fullHeaderMatch 2) hint"
  using assms
  by (simp add: parseQAPairsFromContent_def parseQAContent_full)

theorem parse_full_mode_precedence_witness:
  "test True teaserHeaderRegex (qaContentOf bothHeaders)
   \<and> (\<exists>r. parseQAPairsFromContent bothHeaders None = Some r
          \<and> mode r = Full \<and> mode r \<noteq> Teaser
          \<and> qaPairs r = [\<lparr>question = ''Q?'', answer = ''Yes, always''\<rparr>]
          \<and> opposingParty r = Buyer)"
proof -
  have h: "regexMatch True fullHeaderRegex (qaContentOf bothHeaders) =
             Some [(2, ''buyer''), (1, ''1'')]"
    and l: "fullLoop (qaContentOf bothHeaders) 0 \<noteq> []"
    and t: "test True teaserHeaderRegex (qaContentOf bothHeaders)"
    by (simp_all add: qaContentOf_bothHeaders headers_of_bothHeaders fullLoop_bothHeaders)
  have p: "resolveParty (capture [(2, ''buyer''), (1, ''1'')] 2) None = Buyer"
    by code_simp
  from parse_full_mode_precedence [OF h l, of None]
  obtain r where r: "parseQAPairsFromContent bothHeaders None = Some r"
    "mode r = Full" "mode r \<noteq> Teaser"
    "qaPairs r = fullLoop (qaContentOf bothHeaders) 0"
    "opposingParty r = resolveParty (capture [(2, ''buyer''), (1, ''1'')] 2) None"
    by blast
  from r(4) have q: "qaPairs r = [\<lparr>question = ''Q?'', answer = ''Yes, always''\<rparr>]"
    by (simp only: qaContentOf_bothHeaders fullLoop_bothHeaders)
  from r(5) p have o: "opposingParty r = Buyer"
    by (rule trans)
  from t r(1,2,3) q o show ?thesis
    by blast
qed

text \<open>
  C6 as stated fails: a text with both headers and one numbered entry, whose answer line
  is a single space, gives the full-mode result with an empty answer.
\<close>

theorem parse_blank_answer_counterexample:
  "test True fullHeaderRegex bothHeadersBlankAnswer
   \<and> test True teaserHeaderRegex bothHeadersBlankAnswer
   \<and> parseQAPairsFromContent bothHeadersBlankAnswer None =
       Some \<lparr>qaPairs = [\<lparr>question = ''Q?'', answer = ''''\<rparr>],
             opposingParty = Buyer, mode = Full\<rparr>"
  by (simp only: headers_of_bothHeadersBlankAnswer parse_bothHeadersBlankAnswer simp_thms)

text \<open>
  C7 (as the code has it). On the text of the specification the splitter returns the
  addendum, and the text that is parsed is the part before the split. That text has no
  header, so the extraction returns none, whatever the hint; with a full-mode header in
  front of it the extraction finds exactly the item \<open>(Q?, A)\<close>. For every text, the
  extraction runs on the part before the split point whenever the splitter returns an
  addendum; and the splitter returns none whenever the trimmed last segment does not begin
  with the marker phrase.
\<close>

theorem addendum_isolation:
  "extractCounterpartyMessage addendumExample =
     Some ''the counterparty has answered your question: X''
   \<and> qaContentOf addendumExample = ''**1. Q?**\<newline>A''
   \<and> parseQAPairsFromContent addendumExample hint = None
   \<and> parseQAPairsFromContent addendumWithHeader None =
       Some \<lparr>qaPairs = [\<lparr>question = ''Q?'', answer = ''A''\<rparr>],
             opposingParty = Seller, mode = Full\<rparr>
   \<and> parseQAPairsFromContent content hint = parseQAContent (qaContentOf content) hint
   \<and> (extractCounterpartyMessage content = Some cm \<longrightarrow>
        (\<exists>k. lastIndexOf content ''\<newline>\<newline>'' = Some k
             \<and> qaContentOf content = take k content
             \<and> cm = trim (drop (k + 2) content)))
   \<and> (\<not> beginsWithIgnoringCase markerPhrase (trim (lastSegment content)) \<longrightarrow>
        extractCounterpartyMessage content = None)"
  using extract_addendumExample qaContentOf_addendumExample parse_addendumExample
    parse_addendumWithHeader extractCounterpartyMessage_Some extractCounterpartyMessage_None
  by (simp add: parseQAPairsFromContent_def)

theorem addendum_isolation_witness:
  "extractCounterpartyMessage addendumExample =
     Some ''the counterparty has answered your question: X''
   \<and> (\<exists>k. lastIndexOf addendumExample ''\<newline>\<newline>'' = Some k
          \<and> qaContentOf addendumExample = take k addendumExample
          \<and> ''the counterparty has answered your question: X'' =
              trim (drop (k + 2) addendumExample))
   \<and> \<not> beginsWithIgnoringCase markerPhrase (trim (lastSegment ''Hello\<newline>\<newline>world''))
   \<and> extractCounterpartyMessage ''Hello\<newline>\<newline>world'' = None"
proof -
  have n: "\<not> beginsWithIgnoringCase markerPhrase (trim (lastSegment ''Hello\<newline>\<newline>world''))"
    by code_simp
  from addendum_isolation
    [of None addendumExample "''the counterparty has answered your question: X''"]
    addendum_isolation [of None "''Hello\<newline>\<newline>world''"] n
  show ?thesis by blast
qed

text \<open>
  C7 as stated fails: the text of the specification has no header, and its extraction
  finds no item.
\<close>

theorem addendum_extraction_counterexample:
  "parseQAPairsFromContent addendumExample None = None"
  by (rule parse_addendumExample)

subsection \<open>An entry of the full mode is an entry of the teaser mode\<close>

text \<open>
  The entry pattern of the full mode starts like the one of the teaser mode, up to the lazy
  quantifier, which yields the same matches in another order. So where the teaser pattern
  finds no entry the full pattern finds none.
\<close>

lemma set_matchAll_Star:
  "set (matchAll ic (Star r) (i, s, c)) =
     insert (i, s, c) (\<Union>x \<in> set (matchAll ic r (i, s, c)).
        case x of (i', s', c') \<Rightarrow>
          if length s' < length s then set (matchAll ic (Star r) (i', s', c')) else {})"
  by (subst matchAll_Star [of ic r i s c]) (auto split: if_splits)

lemma set_matchAll_StarLazy_unfold:
  "set (matchAll ic (StarLazy r) (i, s, c)) =
     insert (i, s, c) (\<Union>x \<in> set (matchAll ic r (i, s, c)).
        case x of (i', s', c') \<Rightarrow>
          if length s' < length s then set (matchAll ic (StarLazy r) (i', s', c')) else {})"
  by (subst matchAll_StarLazy [of ic r i s c]) (auto split: if_splits)

lemma set_matchAll_StarLazy:
  "set (matchAll ic (StarLazy r) st) = set (matchAll ic (Star r) st)"
proof (induction "length (fst (snd st))" arbitrary: st rule: less_induct)
  case less
  obtain i s c where st: "st = (i, s, c)" by (cases st) auto
  have ih: "set (matchAll ic (StarLazy r) (i', s', c')) = set (matchAll ic (Star r) (i', s', c'))"
    if "length s' < length s" for i' s' c'
    using less [of "(i', s', c')"] that st by simp
  have "set (matchAll ic (StarLazy r) (i, s, c)) =
        insert (i, s, c) (\<Union>x \<in> set (matchAll ic r (i, s, c)).
           case x of (i', s', c') \<Rightarrow>
             if length s' < length s then set (matchAll ic (StarLazy r) (i', s', c')) else {})"
    by (rule set_matchAll_StarLazy_unfold)
  also have "\<dots> =
        insert (i, s, c) (\<Union>x \<in> set (matchAll ic r (i, s, c)).
           case x of (i', s', c') \<Rightarrow>
             if length s' < length s then set (matchAll ic (Star r) (i', s', c')) else {})"
    using ih by (auto split: if_splits)
  also have "\<dots> = set (matchAll ic (Star r) (i, s, c))"
    by (rule set_matchAll_Star [symmetric])
  finally show ?case by (simp add: st)
qed

lemma matchAll_Seq_nonempty:
  "matchAll ic (Seq a b) st \<noteq> [] \<longleftrightarrow> (\<exists>mid \<in> set (matchAll ic a st). matchAll ic b mid \<noteq> [])"
  by auto

lemma Seq_nonempty_fst: "matchAll ic (Seq a b) st \<noteq> [] \<Longrightarrow> matchAll ic a st \<noteq> []"
  by auto

lemma Seq_nonempty_mono:
  assumes "matchAll ic (Seq a b) st \<noteq> []"
    and "set (matchAll ic a st) \<subseteq> set (matchAll ic a' st)"
    and "\<And>mid. matchAll ic b mid \<noteq> [] \<Longrightarrow> matchAll ic b' mid \<noteq> []"
  shows "matchAll ic (Seq a' b') st \<noteq> []"
  using assms unfolding matchAll_Seq_nonempty by blast

lemma set_matchAll_Group:
  "set (matchAll ic r st) = set (matchAll ic r' st) \<Longrightarrow>
   set (matchAll ic (Group n r) st) = set (matchAll ic (Group n r') st)"
  by (cases st) simp

lemma set_matchAll_PlusLazy:
  "set (matchAll ic (PlusLazy r) st) = set (matchAll ic (Plus r) st)"
  by (simp add: PlusLazy_def Plus_def set_matchAll_StarLazy)

lemma questionPattern_of_qaPattern:
  assumes "matchAll False qaPattern st \<noteq> []"
  shows "matchAll False questionPattern st \<noteq> []"
proof -
  let ?G2 = "Group 2 (Plus (Atom (NoneOf ''*'')))"
  let ?G2' = "Group 2 (PlusLazy (Atom (NoneOf ''*'')))"
  have g: "matchAll False (Seq ?G2' (Str ''**'')) mid \<noteq> []"
    if "matchAll False (Seq ?G2 (Seq (Str ''**'') rest)) mid \<noteq> []" for mid rest
    using that
  proof (rule Seq_nonempty_mono)
    show "set (matchAll False ?G2 mid) \<subseteq> set (matchAll False ?G2' mid)"
      by (simp only: set_matchAll_Group [OF set_matchAll_PlusLazy] subset_refl)
    show "matchAll False (Str ''**'') m \<noteq> []"
      if "matchAll False (Seq (Str ''**'') rest) m \<noteq> []" for m
      using that by (rule Seq_nonempty_fst)
  qed
  have step: "matchAll False (Seq a b') mid \<noteq> []"
    if "matchAll False (Seq a b) mid \<noteq> []"
      and "\<And>m. matchAll False b m \<noteq> [] \<Longrightarrow> matchAll False b' m \<noteq> []" for a b b' mid
    using that(1) subset_refl that(2) by (rule Seq_nonempty_mono)
  from assms show ?thesis
    unfolding qaPattern_def questionPattern_def SeqL.simps
    by (elim step g)
qed

lemma searchFrom_questionPattern:
  "searchFrom False questionPattern i s = None \<Longrightarrow> searchFrom False qaPattern i s = None"
proof (induction s arbitrary: i)
  case Nil
  then have "matchAll False questionPattern (i, [], []) = []"
    by (simp split: list.splits)
  with questionPattern_of_qaPattern [of "(i, [], [])"]
  have "matchAll False qaPattern (i, [], []) = []" by blast
  then show ?case by simp
next
  case (Cons x xs)
  from Cons.prems have q: "matchAll False questionPattern (i, x # xs, []) = []"
    and r: "searchFrom False questionPattern (Suc i) xs = None"
    by (simp_all split: list.splits)
  from q questionPattern_of_qaPattern [of "(i, x # xs, [])"]
  have "matchAll False qaPattern (i, x # xs, []) = []" by blast
  with Cons.IH [OF r] show ?case by simp
qed

lemma fullLoop_Nil_of_teaserLoop_Nil:
  assumes "teaserLoop qaContent 0 = []"
  shows "fullLoop qaContent 0 = []"
proof -
  from assms have "exec False questionPattern qaContent 0 = None"
    by (subst (asm) teaserLoop.simps) (simp split: option.splits prod.splits)
  then have "searchFrom False questionPattern 0 qaContent = None"
    by (auto simp: exec_def split: option.splits prod.splits)
  then have "searchFrom False qaPattern 0 qaContent = None"
    by (rule searchFrom_questionPattern)
  then have "exec False qaPattern qaContent 0 = None"
    by (simp add: exec_def)
  then show ?thesis
    by (subst fullLoop.simps) simp
qed

lemma parseQAContent_no_numbered_entry:
  assumes "teaserLoop qaContent 0 = []"
  shows "parseQAContent qaContent hint = None"
  using assms fullLoop_Nil_of_teaserLoop_Nil [OF assms]
  by (simp add: parseQAContent_def Let_def split: option.splits)

text \<open>
  C8. When a header matches but the entry pattern of its mode finds no entry, the
  extractor returns none: for the full-mode header with the full-mode entries, and, when
  there is no full-mode header, for the teaser-mode header with the teaser-mode entries.
  Also, when a header of either mode matches and the text has no numbered entry at all
  (the teaser-mode pattern finds none), the extractor returns none. The header and the
  entries are those of the text that is parsed.
\<close>

theorem parse_header_without_entries:
  "((regexMatch True fullHeaderRegex (qaContentOf content) \<noteq> None
       \<and> fullLoop (qaContentOf content) 0 = [])
     \<or> (regexMatch True fullHeaderRegex (qaContentOf content) = None
       \<and> regexMatch True teaserHeaderRegex (qaContentOf content) \<noteq> None
       \<and> teaserLoop (qaContentOf content) 0 = [])
     \<longrightarrow> parseQAPairsFromContent content hint = None)
   \<and> ((regexMatch True fullHeaderRegex (qaContentOf content) \<noteq> None
        \<or> regexMatch True teaserHeaderRegex (qaContentOf content) \<noteq> None)
       \<and> teaserLoop (qaContentOf content) 0 = []
     \<longrightarrow> parseQAPairsFromContent content hint = None)"
proof (intro conjI impI)
  assume "(regexMatch True fullHeaderRegex (qaContentOf content) \<noteq> None
       \<and> fullLoop (qaContentOf content) 0 = [])
     \<or> (regexMatch True fullHeaderRegex (qaContentOf content) = None
       \<and> regexMatch True teaserHeaderRegex (qaContentOf content) \<noteq> None
       \<and> teaserLoop (qaContentOf content) 0 = [])"
  then show "parseQAPairsFromContent content hint = None"
    by (simp only: parseQAPairsFromContent_def parseQAContent_no_entries)
next
  assume "(regexMatch True fullHeaderRegex (qaContentOf content) \<noteq> None
        \<or> regexMatch True teaserHeaderRegex (qaContentOf content) \<noteq> None)
       \<and> teaserLoop (qaContentOf content) 0 = []"
  then have "teaserLoop (qaContentOf content) 0 = []" by (rule conjunct2)
  then show "parseQAPairsFromContent content hint = None"
    by (simp only: parseQAPairsFromContent_def parseQAContent_no_numbered_entry)
qed

theorem parse_header_without_entries_witness:
  "regexMatch True fullHeaderRegex (qaContentOf fullHeaderOnly) \<noteq> None
   \<and> fullLoop (qaContentOf fullHeaderOnly) 0 = []
   \<and> parseQAPairsFromContent fullHeaderOnly None = None
   \<and> regexMatch True fullHeaderRegex (qaContentOf teaserHeaderOnly) = None
   \<and> regexMatch True teaserHeaderRegex (qaContentOf teaserHeaderOnly) \<noteq> None
   \<and> teaserLoop (qaContentOf teaserHeaderOnly) 0 = []
   \<and> parseQAPairsFromContent teaserHeaderOnly None = None"
proof -
  have f: "regexMatch True fullHeaderRegex (qaContentOf fullHeaderOnly) \<noteq> None"
    "fullLoop (qaContentOf fullHeaderOnly) 0 = []"
    by (simp_all add: fullHeaderOnly_facts)
  have t: "regexMatch True fullHeaderRegex (qaContentOf teaserHeaderOnly) = None"
    "regexMatch True teaserHeaderRegex (qaContentOf teaserHeaderOnly) \<noteq> None"
    "teaserLoop (qaContentOf teaserHeaderOnly) 0 = []"
    by (simp_all add: teaserHeaderOnly_facts)
  have 1: "parseQAPairsFromContent fullHeaderOnly None = None"
    by (rule mp [OF conjunct1 [OF parse_header_without_entries [of fullHeaderOnly None]]
          disjI1 [OF conjI [OF f]]])
  have 2: "parseQAPairsFromContent teaserHeaderOnly None = None"
    by (rule mp [OF conjunct2 [OF parse_header_without_entries [of teaserHeaderOnly None]]
          conjI [OF disjI2 [OF t(2)] t(3)]])
  from f t 1 2 show ?thesis by blast
qed

section \<open>Properties of the Q/A cache\<close>











section \<open>Properties of the assistant message\<close>

text \<open>
  C10. An assistant message of a transcript whose text content, trimmed, is empty or
  equal to \<open>null\<close> in any letter case is rendered as nothing.
\<close>

theorem AssistantMessage_withholds_empty:
  assumes "thread_messages \<noteq> []"
    and "trim (getContentString (msg_content m)) = []
         \<or> toLowerCase (trim (getContentString (msg_content m))) = ''null''"
  shows "AssistantMessage thread_messages (Some m) = Inr RenderNull"
  using assms
  by (auto simp: AssistantMessage_def Let_def toLowerCase_def)

theorem AssistantMessage_withholds_empty_witness:
  "AssistantMessage [textMessage ''ai'' '' NULL ''] (Some (textMessage ''ai'' '' NULL ''))
     = Inr RenderNull
   \<and> AssistantMessage [textMessage ''ai'' ''  ''] (Some (textMessage ''ai'' ''  ''))
     = Inr RenderNull"
proof -
  have a: "[textMessage ''ai'' '' NULL ''] \<noteq> []" "[textMessage ''ai'' ''  ''] \<noteq> []"
    by simp_all
  have b: "toLowerCase (trim (getContentString (msg_content (textMessage ''ai'' '' NULL ''))))
             = ''null''"
    and c: "trim (getContentString (msg_content (textMessage ''ai'' ''  ''))) = []"
    by code_simp+
  from AssistantMessage_withholds_empty [OF a(1) disjI2 [OF b]]
    AssistantMessage_withholds_empty [OF a(2) disjI1 [OF c]]
  show ?thesis by (rule conjI)
qed

section \<open>Properties of the polling\<close>

text \<open>
  C4 fails on the code. A refresh is started on thread \<open>t1\<close>, the thread id changes to
  \<open>t2\<close>, and then the response for \<open>t1\<close> arrives: it is written to \<open>polledMessages\<close>, and
  the reconciled list of thread \<open>t2\<close>, whose stream list is empty, consists of the five
  messages of thread \<open>t1\<close>.
\<close>

theorem stale_poll_response_applied:
  "session_threadId (runSession exampleServer sessionOnT1
      [RefreshStarted, ThreadIdChanged (Some ''t2''), RefreshResolved 0]) = Some ''t2''
   \<and> polledMessages (runSession exampleServer sessionOnT1
      [RefreshStarted, ThreadIdChanged (Some ''t2''), RefreshResolved 0]) = Some polled5
   \<and> effectiveMessages (Some [])
       (polledMessages (runSession exampleServer sessionOnT1
          [RefreshStarted, ThreadIdChanged (Some ''t2''), RefreshResolved 0])) False = polled5"
proof -
  have h: "messagesHash polled5 \<noteq> ''''"
    by (simp add: messagesHash_def)
  have l: "0 < length polled5"
    by (simp add: polled5_def)
  have r: "runSession exampleServer sessionOnT1
      [RefreshStarted, ThreadIdChanged (Some ''t2''), RefreshResolved 0] =
      \<lparr>session_threadId = Some ''t2'', polledMessages = Some polled5,
       lastPollRef = messagesHash polled5, inFlight = []\<rparr>"
    using h l by (simp add: runSession_def sessionOnT1_def exampleServer_def)
  show ?thesis
    using l by (simp add: r effectiveMessages_def)
qed

end
